theory Spec2Isabelle
  imports Main
begin

section \<open>The interactive prompt of \<^verbatim>\<open>src/utils/tasks.mjs\<close>\<close>

text \<open>
  The development embeds the two functions of the prompt module (the tasks
  import it as \<^verbatim>\<open>utils/cli.mjs\<close>), \<^verbatim>\<open>askQuestion\<close> and \<^verbatim>\<open>askFileInput\<close>.
  Line numbers are those of \<^verbatim>\<open>src/utils/tasks.mjs\<close>. The terminal, the
  keyboard and the file system are inputs of the model: a prompt consumes a
  list of events, and \<^verbatim>\<open>askFileInput\<close> threads a map from paths to file
  contents. What is drawn on the screen is not modelled.
\<close>

subsection \<open>Strings\<close>

text \<open>
  A string is a list of characters. \<^verbatim>\<open>toLowerCase\<close> maps the letters A to Z to
  a to z and leaves every other character alone, which is what JavaScript does
  on ASCII text.
\<close>

definition lower_char :: "char \<Rightarrow> char" where
  "lower_char c =
     (let n = (of_char c :: nat) in if 65 \<le> n \<and> n \<le> 90 then char_of (n + 32) else c)"

definition toLowerCase :: "string \<Rightarrow> string" where
  "toLowerCase s = map lower_char s"

fun startsWith :: "string \<Rightarrow> string \<Rightarrow> bool" where
  "startsWith s [] = True"
| "startsWith [] (c # f) = False"
| "startsWith (x # s) (c # f) = (x = c \<and> startsWith s f)"

text \<open>\<^verbatim>\<open>s.includes(f)\<close>: \<open>f\<close> occurs in \<open>s\<close> as a contiguous piece.\<close>

fun includes_str :: "string \<Rightarrow> string \<Rightarrow> bool" where
  "includes_str [] f = (f = [])"
| "includes_str (x # s) f = (startsWith (x # s) f \<or> includes_str s f)"

text \<open>\<^verbatim>\<open>s.split(sep)\<close> for a separator of one character; the result is never empty.\<close>

fun split_str :: "char \<Rightarrow> string \<Rightarrow> string list" where
  "split_str sep [] = [[]]"
| "split_str sep (c # cs) =
     (if c = sep then [] # split_str sep cs
      else (case split_str sep cs of
              [] \<Rightarrow> [[c]]
            | w # ws \<Rightarrow> (c # w) # ws))"

subsection \<open>Values, errors and options\<close>

text \<open>
  An option's value is opaque to the prompt (\<^verbatim>\<open>any\<close>); strings and booleans
  are told apart because callers compare the answer with string literals and
  \<^verbatim>\<open>askFileInput\<close> returns \<^verbatim>\<open>false\<close>.
\<close>

datatype jsval = VString string | VBool bool | VOpaque nat

datatype error = TypeError | ENOENT | ExecError

text \<open>
  \<^verbatim>\<open>options.indexOf(a)\<close> compares objects by identity, so every option object
  carries one: \<open>Given r\<close> for an object the caller passed (the same object may be
  passed twice), \<open>Fresh i\<close> for the object that line 51 creates for the string at
  position \<open>i\<close>.
\<close>

datatype ident = Given nat | Fresh nat

record answer =
  ident :: ident
  name :: string
  val :: jsval

text \<open>
  What a caller may put into the option array: a string, an object
  \<^verbatim>\<open>{ name, value }\<close>, or something falsy (\<^verbatim>\<open>false\<close>, \<^verbatim>\<open>null\<close>,
  \<^verbatim>\<open>undefined\<close>) as \<^verbatim>\<open>cond && { ... }\<close> produces. The empty string is falsy too.
\<close>

datatype raw_option = RString string | RObject nat string jsval | RFalsy

fun truthy :: "raw_option \<Rightarrow> bool" where
  "truthy (RString s) = (s \<noteq> [])"
| "truthy (RObject r n v) = True"
| "truthy RFalsy = False"

text \<open>
  Lines 35 and 51 in one pass: falsy entries are dropped, a string becomes
  \<^verbatim>\<open>{ name: option, value: option }\<close>, an object is kept. The counter is the
  position in the array that line 35 leaves.
\<close>

fun normalise_from :: "nat \<Rightarrow> raw_option list \<Rightarrow> answer list" where
  "normalise_from i [] = []"
| "normalise_from i (RFalsy # rs) = normalise_from i rs"
| "normalise_from i (RString s # rs) =
     (if s = [] then normalise_from i rs
      else \<lparr>ident = Fresh i, name = s, val = VString s\<rparr> # normalise_from (Suc i) rs)"
| "normalise_from i (RObject r n v # rs) =
     \<lparr>ident = Given r, name = n, val = v\<rparr> # normalise_from (Suc i) rs"

definition normalise :: "raw_option list \<Rightarrow> answer list" where
  "normalise raws = normalise_from 0 raws"

fun index_from :: "nat \<Rightarrow> answer list \<Rightarrow> ident \<Rightarrow> int" where
  "index_from i [] a = - 1"
| "index_from i (x # xs) a = (if ident x = a then int i else index_from (Suc i) xs a)"

definition indexOf :: "answer list \<Rightarrow> answer \<Rightarrow> int" where
  "indexOf xs a = index_from 0 xs (ident a)"

subsection \<open>Sorting\<close>

text \<open>
  \<^verbatim>\<open>Array.prototype.sort\<close> belongs to the engine, not to the repository. With a
  comparator that is not a consistent order the language leaves the result to
  the engine, so the model follows the engine that runs this program: the
  module needs \<^verbatim>\<open>readline.promises\<close>, hence Node 17 or later, whose V8 sorts
  as follows. The longest run at the start of the array is found
  (\<^verbatim>\<open>CountAndMakeRun\<close>: strictly descending if the second element compares
  below the first, and then reversed), and every later element is put into
  place by binary insertion. For fewer than 64 elements this is the whole of
  V8's procedure; longer arrays are cut into several such runs which are then
  merged, and that part is not modelled.
\<close>

fun run_length :: "('a \<Rightarrow> 'a \<Rightarrow> int) \<Rightarrow> bool \<Rightarrow> 'a \<Rightarrow> 'a list \<Rightarrow> nat" where
  "run_length cmp desc prev [] = 0"
| "run_length cmp desc prev (x # xs) =
     (let order = cmp x prev in
      if (if desc then 0 \<le> order else order < 0) then 0
      else Suc (run_length cmp desc x xs))"

definition countAndMakeRun :: "('a \<Rightarrow> 'a \<Rightarrow> int) \<Rightarrow> 'a list \<Rightarrow> nat \<times> 'a list" where
  "countAndMakeRun cmp xs =
     (case xs of
        x0 # x1 # rest \<Rightarrow>
          (let desc = (cmp x1 x0 < 0);
               n = 2 + run_length cmp desc x1 rest
           in (n, if desc then rev (take n xs) @ drop n xs else xs))
      | _ \<Rightarrow> (length xs, xs))"

function find_pos :: "('a \<Rightarrow> 'a \<Rightarrow> int) \<Rightarrow> 'a \<Rightarrow> 'a list \<Rightarrow> nat \<Rightarrow> nat \<Rightarrow> nat" where
  "find_pos cmp pivot xs left right =
     (if left < right then
        (let mid = left + (right - left) div 2 in
         if cmp pivot (xs ! mid) < 0 then find_pos cmp pivot xs left mid
         else find_pos cmp pivot xs (mid + 1) right)
      else left)"
  by pat_completeness auto
termination
  by (relation "measure (\<lambda>(cmp, pivot, xs, left, right). right - left)") auto

declare find_pos.simps [simp del]

text \<open>
  The insertion loop: \<open>pre\<close> is the part of the array already in order,
  the second list the elements still to be inserted, leftmost first.
\<close>

fun binaryInsertionSort :: "('a \<Rightarrow> 'a \<Rightarrow> int) \<Rightarrow> 'a list \<Rightarrow> 'a list \<Rightarrow> 'a list" where
  "binaryInsertionSort cmp pre [] = pre"
| "binaryInsertionSort cmp pre (pivot # rest) =
     (let left = find_pos cmp pivot pre 0 (length pre)
      in binaryInsertionSort cmp (take left pre @ pivot # drop left pre) rest)"

definition sort_js :: "('a \<Rightarrow> 'a \<Rightarrow> int) \<Rightarrow> 'a list \<Rightarrow> 'a list" where
  "sort_js cmp xs =
     (if length xs < 2 then xs
      else (case countAndMakeRun cmp xs of
              (n, ys) \<Rightarrow> binaryInsertionSort cmp (take n ys) (drop n ys)))"

subsection \<open>Filtering and ranking the options\<close>

text \<open>The comparator of lines 86 to 90.\<close>

definition comparator :: "answer list \<Rightarrow> string \<Rightarrow> answer \<Rightarrow> answer \<Rightarrow> int" where
  "comparator opts f a b =
     (if startsWith (toLowerCase (name a)) f then - 1
      else if startsWith (toLowerCase (name b)) f then 1
      else indexOf opts a - indexOf opts b)"

text \<open>The expression of lines 83 to 90, before the fallback of line 91.\<close>

definition rank_options :: "answer list \<Rightarrow> string \<Rightarrow> answer list" where
  "rank_options opts f =
     (if f = [] then opts
      else sort_js (comparator opts f)
             (filter (\<lambda>option. includes_str (toLowerCase (name option)) f) opts))"

subsection \<open>The state of a prompt\<close>

text \<open>
  What is fixed while a prompt is open: the options after lines 35 and 51, the
  lines of the question, and \<^verbatim>\<open>process.stdout.rows\<close>, which is
  \<^verbatim>\<open>undefined\<close> (\<open>None\<close>) when the output is no terminal.
\<close>

record config =
  options :: "answer list"
  question :: "string list"
  rows :: "int option"

text \<open>Line 54; \<open>None\<close> is \<^verbatim>\<open>NaN\<close>, the value of \<^verbatim>\<open>Math.max(3, undefined - k)\<close>.\<close>

definition questionRows :: "config \<Rightarrow> int option" where
  "questionRows cfg =
     (case rows cfg of
        None \<Rightarrow> None
      | Some r \<Rightarrow> Some (max 3 (r - min 12 (int (length (options cfg)) + 4))))"

text \<open>Line 55; a comparison with \<^verbatim>\<open>NaN\<close> is false.\<close>

definition scrollbar :: "config \<Rightarrow> bool" where
  "scrollbar cfg =
     (case questionRows cfg of
        None \<Rightarrow> False
      | Some r \<Rightarrow> r < int (length (question cfg)))"

text \<open>
  The variables of lines 57 to 60 and the edit buffer \<^verbatim>\<open>rl.line\<close> of the
  readline interface, which is \<^verbatim>\<open>undefined\<close> (\<open>None\<close>) after a
  \<^verbatim>\<open>set_line\<close> command without argument.
\<close>

record prompt =
  selectedOptionIndex :: int
  questionIndex :: int
  filter_str :: string
  filteredOptions :: "answer list"
  line :: "string option"

definition initial :: "config \<Rightarrow> prompt" where
  "initial cfg =
     \<lparr>selectedOptionIndex = 0, questionIndex = 0, filter_str = [],
      filteredOptions = options cfg, line = Some []\<rparr>"

text \<open>
  Lines 61 to 94. The listener's return value (\<^verbatim>\<open>true\<close> for the return key)
  is dropped by the event emitter, so the result is the state, or the
  \<^verbatim>\<open>TypeError\<close> of \<^verbatim>\<open>rl.line.toLowerCase()\<close> on an undefined buffer.
  The argument \<open>key\<close> is the key's \<^verbatim>\<open>name\<close>, \<open>None\<close> for a key without one.
\<close>

definition eventListener :: "config \<Rightarrow> prompt \<Rightarrow> string option \<Rightarrow> error + prompt" where
  "eventListener cfg s key =
     (if key = Some ''return'' then Inr s
      else if key = Some ''up'' then
        Inr (s\<lparr>selectedOptionIndex :=
               (if selectedOptionIndex s = 0 then int (length (filteredOptions s)) - 1
                else max 0 (selectedOptionIndex s - 1))\<rparr>)
      else if key = Some ''down'' then
        Inr (s\<lparr>selectedOptionIndex :=
               (if selectedOptionIndex s = int (length (filteredOptions s)) - 1 then 0
                else min (int (length (filteredOptions s)) - 1) (selectedOptionIndex s + 1))\<rparr>)
      else if scrollbar cfg \<and> key = Some ''pageup'' then
        Inr (s\<lparr>questionIndex := max 0 (questionIndex s - 1)\<rparr>)
      else if scrollbar cfg \<and> key = Some ''pagedown'' then
        Inr (s\<lparr>questionIndex :=
               (case questionRows cfg of
                  None \<Rightarrow> questionIndex s
                | Some r \<Rightarrow> min (int (length (question cfg)) - r) (questionIndex s + 1))\<rparr>)
      else
        (case (if key = Some ''escape'' then Some [] else line s) of
           None \<Rightarrow> Inl TypeError
         | Some buf \<Rightarrow>
             (let f = toLowerCase buf;
                  ranked = rank_options (options cfg) f
              in Inr (s\<lparr>line := Some buf,
                        filter_str := f,
                        filteredOptions := (if ranked = [] then options cfg else ranked),
                        selectedOptionIndex := 0\<rparr>))))"

subsection \<open>Events\<close>

text \<open>
  What reaches an open prompt:
  \<^item> \<open>Keypress key buffer\<close>, a key of the terminal; readline's own listener was
    registered first, so the edit buffer already holds \<open>buffer\<close> when
    \<^verbatim>\<open>eventListener\<close> runs;
  \<^item> \<open>Data chunk\<close>, a chunk read from the input stream;
  \<^item> \<open>Line l\<close>, a line submitted to \<^verbatim>\<open>rl.question\<close>.
\<close>

datatype event = Keypress "string option" string | Data string | Line string

datatype reaction = Await prompt | Resolve prompt | Throw error

text \<open>The prefix of an injected command: U+25BA in UTF-8.\<close>

definition sentinel :: string where
  "sentinel = [CHR 0xE2, CHR 0x96, CHR 0xBA]"

definition first_arg :: "string list \<Rightarrow> string option" where
  "first_arg args = (case args of [] \<Rightarrow> None | a # _ \<Rightarrow> Some a)"

text \<open>Lines 121 to 136; \<^verbatim>\<open>splice(1)\<close> returns the array without its first element.\<close>

definition on_data :: "config \<Rightarrow> prompt \<Rightarrow> string \<Rightarrow> reaction" where
  "on_data cfg s chunk =
     (if \<not> startsWith chunk (sentinel @ '':'') then Await s
      else (case drop 1 (split_str CHR '':'' chunk) of
              [] \<Rightarrow> Await s
            | command # args \<Rightarrow>
                if command = ''keypress'' then
                  (case eventListener cfg s (first_arg args) of
                     Inl e \<Rightarrow> Throw e
                   | Inr s' \<Rightarrow> Await s')
                else if command = ''set_line'' then Await (s\<lparr>line := first_arg args\<rparr>)
                else if command = ''submit'' then Resolve s
                else Await s))"

fun react :: "config \<Rightarrow> prompt \<Rightarrow> event \<Rightarrow> reaction" where
  "react cfg s (Keypress key buffer) =
     (case eventListener cfg (s\<lparr>line := Some buffer\<rparr>) key of
        Inl e \<Rightarrow> Throw e
      | Inr s' \<Rightarrow> Await s')"
| "react cfg s (Data chunk) = on_data cfg s chunk"
| "react cfg s (Line l) = Resolve s"

fun feed :: "config \<Rightarrow> prompt \<Rightarrow> event list \<Rightarrow> reaction" where
  "feed cfg s [] = Await s"
| "feed cfg s (e # es) =
     (case react cfg s e of
        Await s' \<Rightarrow> feed cfg s' es
      | Resolve s' \<Rightarrow> Resolve s'
      | Throw err \<Rightarrow> Throw err)"

text \<open>\<^verbatim>\<open>xs[i]\<close> is \<^verbatim>\<open>undefined\<close> outside the array.\<close>

definition element :: "'a list \<Rightarrow> int \<Rightarrow> 'a option" where
  "element xs i = (if 0 \<le> i \<and> i < int (length xs) then Some (xs ! nat i) else None)"

text \<open>
  Lines 117, 134 and 139: the promise resolves with
  \<^verbatim>\<open>filteredOptions[selectedOptionIndex]\<close>, whose \<^verbatim>\<open>value\<close> is returned.
\<close>

definition response_value :: "prompt \<Rightarrow> error + jsval" where
  "response_value s =
     (case element (filteredOptions s) (selectedOptionIndex s) of
        None \<Rightarrow> Inl TypeError
      | Some response \<Rightarrow> Inr (val response))"

text \<open>
  A prompt in option mode over the events it receives. \<open>None\<close>: the events
  ran out and the prompt is still open.
\<close>

definition run :: "config \<Rightarrow> prompt \<Rightarrow> event list \<Rightarrow> (error + jsval) option" where
  "run cfg s evs =
     (case feed cfg s evs of
        Await s' \<Rightarrow> None
      | Resolve s' \<Rightarrow> Some (response_value s')
      | Throw err \<Rightarrow> Some (Inl err))"

text \<open>
  Lines 38 to 48: without options every submitted line is an answer, and an
  empty one asks again. Keys and chunks are readline's business there.
\<close>

fun free_text :: "event list \<Rightarrow> (error + jsval) option" where
  "free_text [] = None"
| "free_text (Line answer # es) =
     (if answer \<noteq> [] then Some (Inr (VString answer)) else free_text es)"
| "free_text (Keypress key buffer # es) = free_text es"
| "free_text (Data chunk # es) = free_text es"

definition askQuestion ::
  "string \<Rightarrow> raw_option list \<Rightarrow> int option \<Rightarrow> event list \<Rightarrow> (error + jsval) option" where
  "askQuestion q raws term_rows evs =
     (let opts = normalise raws in
      if length opts = 0 then free_text evs
      else (let cfg = \<lparr>options = opts, question = split_str CHR 0x0A q, rows = term_rows\<rparr>
            in run cfg (initial cfg) evs))"

subsection \<open>The file system and \<^verbatim>\<open>askFileInput\<close>\<close>

text \<open>
  A file system maps a path to the content of the file there. Reading or
  removing a file that is absent throws \<^verbatim>\<open>ENOENT\<close>.
\<close>

type_synonym files = "string \<rightharpoonup> string"

definition existsSync :: "files \<Rightarrow> string \<Rightarrow> bool" where
  "existsSync fs file = (fs file \<noteq> None)"

definition writeFile :: "string \<Rightarrow> string \<Rightarrow> files \<Rightarrow> files" where
  "writeFile file content fs = fs(file \<mapsto> content)"

definition readFile :: "files \<Rightarrow> string \<Rightarrow> error + string" where
  "readFile fs file = (case fs file of None \<Rightarrow> Inl ENOENT | Some content \<Rightarrow> Inr content)"

definition unlinkSync :: "string \<Rightarrow> files \<Rightarrow> error + files" where
  "unlinkSync file fs = (if fs file = None then Inl ENOENT else Inr (fs(file := None)))"

text \<open>Lines 153 to 159; the signal handlers it deregisters are not modelled.\<close>

definition cleanup :: "string \<Rightarrow> files \<Rightarrow> error + files" where
  "cleanup file fs = (if existsSync fs file then unlinkSync file fs else Inr fs)"

text \<open>
  While a prompt is open the user, or the editor started before, may change
  the file system.
\<close>

datatype fs_op = Removed string | Saved string string

fun apply_op :: "fs_op \<Rightarrow> files \<Rightarrow> files" where
  "apply_op (Removed file) fs = fs(file := None)"
| "apply_op (Saved file content) fs = fs(file \<mapsto> content)"

text \<open>
  One prompt of \<^verbatim>\<open>askFileInput\<close> as the world plays it: the events the
  prompt receives, the changes made to the file system while it is open, and
  whether the command \<^verbatim>\<open>code <file>\<close> succeeds should the answer start the
  editor (\<^verbatim>\<open>execSync\<close> throws when it does not).
\<close>

record session =
  events :: "event list"
  external :: "fs_op list"
  editor_ok :: bool

definition menu :: "string \<Rightarrow> raw_option list" where
  "menu file =
     [RObject 0 (''Edit template with `code '' @ file @ ''`'') (VString ''openEditor''),
      RObject 1 ''Continue'' (VString ''continue''),
      RObject 2 ''Abort'' (VString ''abort'')]"

definition confirm_question :: string where
  "confirm_question = ''You did not modify the template. Are you sure you want to continue?''"

text \<open>Lines 181 to 186: the file system afterwards and \<^verbatim>\<open>result\<close>.\<close>

definition read_back :: "string \<Rightarrow> string \<Rightarrow> files \<Rightarrow> error + (files \<times> string)" where
  "read_back file content fs =
     (if \<not> existsSync fs file then Inr (writeFile file content fs, content)
      else (case readFile fs file of
              Inl e \<Rightarrow> Inl e
            | Inr result \<Rightarrow> Inr (fs, result)))"

text \<open>\<^verbatim>\<open>cleanup()\<close>, \<^verbatim>\<open>break\<close> and the \<^verbatim>\<open>return result\<close> of line 207.\<close>

definition finish :: "string \<Rightarrow> jsval \<Rightarrow> files \<Rightarrow> (error + jsval \<times> files) option" where
  "finish file result fs =
     (case cleanup file fs of
        Inl e \<Rightarrow> Some (Inl e)
      | Inr fs' \<Rightarrow> Some (Inr (result, fs')))"

text \<open>
  The loop of lines 167 to 205. The result is the returned value with the file
  system left behind, an error, or \<open>None\<close> while a prompt is still open.
\<close>

fun menu_loop ::
  "string \<Rightarrow> string \<Rightarrow> string \<Rightarrow> int option \<Rightarrow> files \<Rightarrow> session list
     \<Rightarrow> (error + jsval \<times> files) option" where
  "menu_loop q file content r fs [] = None"
| "menu_loop q file content r fs (s1 # rest) =
     (case askQuestion q (menu file) r (events s1) of
        None \<Rightarrow> None
      | Some (Inl e) \<Rightarrow> Some (Inl e)
      | Some (Inr task) \<Rightarrow>
          (let fs1 = fold apply_op (external s1) fs in
           if task = VString ''openEditor'' \<and> \<not> editor_ok s1 then Some (Inl ExecError)
           else if task = VString ''continue'' then
             (case read_back file content fs1 of
                Inl e \<Rightarrow> Some (Inl e)
              | Inr (fs2, result) \<Rightarrow>
                  if result = content then
                    (case rest of
                       [] \<Rightarrow> None
                     | s2 # rest2 \<Rightarrow>
                         (case askQuestion confirm_question [RString ''Yes'', RString ''No''] r
                                 (events s2) of
                            None \<Rightarrow> None
                          | Some (Inl e) \<Rightarrow> Some (Inl e)
                          | Some (Inr yesno) \<Rightarrow>
                              (let fs3 = fold apply_op (external s2) fs2 in
                               if yesno = VString ''Yes'' then finish file (VString result) fs3
                               else menu_loop q file content r fs3 rest2)))
                  else finish file (VString result) fs2)
           else if task = VString ''abort'' then finish file (VBool False) fs1
           else menu_loop q file content r fs1 rest))"

definition askFileInput ::
  "string \<Rightarrow> string \<Rightarrow> string \<Rightarrow> int option \<Rightarrow> files \<Rightarrow> session list
     \<Rightarrow> (error + jsval \<times> files) option" where
  "askFileInput q file content r fs sessions =
     menu_loop q file content r (writeFile file content fs) sessions"

subsection \<open>Auxiliary notions and sample inputs\<close>

text \<open>The selection points into the list that is shown.\<close>

definition in_range :: "prompt \<Rightarrow> bool" where
  "in_range s =
     (0 \<le> selectedOptionIndex s \<and> selectedOptionIndex s < int (length (filteredOptions s)))"

text \<open>The keys that reach the last branch of \<^verbatim>\<open>eventListener\<close> (line 80).\<close>

definition other_key :: "config \<Rightarrow> string option \<Rightarrow> bool" where
  "other_key cfg key =
     (key \<noteq> Some ''return'' \<and> key \<noteq> Some ''up'' \<and> key \<noteq> Some ''down''
      \<and> \<not> (scrollbar cfg \<and> key = Some ''pageup'')
      \<and> \<not> (scrollbar cfg \<and> key = Some ''pagedown''))"

text \<open>The first test of the comparator: the name starts with the filter text.\<close>

definition starts :: "string \<Rightarrow> answer \<Rightarrow> bool" where
  "starts f a = startsWith (toLowerCase (name a)) f"

text \<open>
  Among the options of \<open>xs\<close> that do not start with the filter text, the
  index in \<open>opts\<close> never decreases.
\<close>

definition index_sorted :: "answer list \<Rightarrow> string \<Rightarrow> answer list \<Rightarrow> bool" where
  "index_sorted opts f xs =
     sorted_wrt (\<lambda>x y. indexOf opts x \<le> indexOf opts y) (filter (\<lambda>a. \<not> starts f a) xs)"

text \<open>A yes/no prompt as the tasks ask it, on a terminal of 24 rows.\<close>

definition yes_no :: config where
  "yes_no =
     \<lparr>options = normalise [RString ''Yes'', RString ''No''], question = [''Sure?''],
      rows = Some 24\<rparr>"

text \<open>The options of \<^verbatim>\<open>openPullRequest\<close> (\<^verbatim>\<open>src/kanban.mjs\<close>, lines 104 to 108).\<close>

definition changelevels :: "raw_option list" where
  "changelevels =
     [RObject 0 ''Patch (Bugfixes, typos, etc.)'' (VString ''patch''),
      RObject 1 ''Minor (New features, etc.)'' (VString ''minor''),
      RObject 2 ''Major (Breaking changes, etc.)'' (VString ''major'')]"

section \<open>Properties\<close>

subsection \<open>Injected commands\<close>

lemma split_no_sep: "sep \<notin> set a \<Longrightarrow> split_str sep a = [a]"
  by (induction a) auto

lemma on_data_keypress:
  "CHR '':'' \<notin> set k \<Longrightarrow>
   on_data cfg s (sentinel @ '':keypress:'' @ k) =
     (case eventListener cfg s (Some k) of Inl e \<Rightarrow> Throw e | Inr s' \<Rightarrow> Await s')"
  by (simp add: on_data_def sentinel_def split_no_sep first_arg_def)

lemma on_data_set_line:
  "CHR '':'' \<notin> set txt \<Longrightarrow>
   on_data cfg s (sentinel @ '':set_line:'' @ txt) = Await (s\<lparr>line := Some txt\<rparr>)"
  by (simp add: on_data_def sentinel_def split_no_sep first_arg_def)

lemma on_data_submit: "on_data cfg s (sentinel @ '':submit'') = Resolve s"
  by (simp add: on_data_def sentinel_def first_arg_def)

lemma feed_append:
  "feed cfg s evs = Await s' \<Longrightarrow> feed cfg s (evs @ later) = feed cfg s' later"
  by (induction evs arbitrary: s) (auto split: reaction.splits)

subsection \<open>The selection stays inside the list\<close>

lemma in_range_listen:
  "in_range s \<Longrightarrow> options cfg \<noteq> [] \<Longrightarrow> eventListener cfg s key = Inr s' \<Longrightarrow> in_range s'"
  by (auto simp: eventListener_def in_range_def Let_def split: if_splits option.splits)

lemma in_range_line: "in_range (s\<lparr>line := l\<rparr>) = in_range s"
  by (simp add: in_range_def)

lemma in_range_on_data:
  "in_range s \<Longrightarrow> options cfg \<noteq> [] \<Longrightarrow> on_data cfg s chunk = Await s' \<Longrightarrow> in_range s'"
  by (auto simp: on_data_def in_range_line split: if_splits list.splits sum.splits
      dest: in_range_listen)

lemma in_range_react:
  "in_range s \<Longrightarrow> options cfg \<noteq> [] \<Longrightarrow> react cfg s e = Await s' \<Longrightarrow> in_range s'"
proof (cases e)
  case (Keypress key buffer)
  assume r: "in_range s" and o: "options cfg \<noteq> []" and a: "react cfg s e = Await s'"
  from r have x: "in_range (s\<lparr>line := Some buffer\<rparr>)" by (simp add: in_range_line)
  from a Keypress have y: "eventListener cfg (s\<lparr>line := Some buffer\<rparr>) key = Inr s'"
    by (simp split: sum.splits)
  show ?thesis by (rule in_range_listen [OF x o y])
next
  case (Data chunk)
  assume "in_range s" "options cfg \<noteq> []" "react cfg s e = Await s'"
  with Data show ?thesis by (auto dest: in_range_on_data)
next
  case (Line l)
  assume "react cfg s e = Await s'"
  with Line show ?thesis by simp
qed

lemma in_range_feed:
  "in_range s \<Longrightarrow> options cfg \<noteq> [] \<Longrightarrow> feed cfg s evs = Await s' \<Longrightarrow> in_range s'"
proof (induction evs arbitrary: s)
  case Nil
  then show ?case by simp
next
  case (Cons e evs)
  then show ?case
    by (auto split: reaction.splits dest: in_range_react)
qed

lemma in_range_initial: "options cfg \<noteq> [] \<Longrightarrow> in_range (initial cfg)"
  by (simp add: in_range_def initial_def)

lemma response_in_range:
  "in_range s \<Longrightarrow> response_value s = Inr (val (filteredOptions s ! nat (selectedOptionIndex s)))"
  by (simp add: response_value_def element_def in_range_def)

lemma sample_down:
  "on_data c p (sentinel @ '':keypress:down'') =
     (case eventListener c p (Some ''down'') of Inl e \<Rightarrow> Throw e | Inr s' \<Rightarrow> Await s')"
  using on_data_keypress [of "''down''" c p] by simp

subsection \<open>Submitting\<close>

text \<open>
  Claim C2. In option mode a submit event, the line event of the return key
  or the injected \<^verbatim>\<open>submit\<close> command, ends the prompt, and \<^verbatim>\<open>askQuestion\<close>
  returns the value of \<^verbatim>\<open>filteredOptions[selectedOptionIndex]\<close>, whatever events
  came before and whatever would follow. For the options Yes and No, with
  nothing typed, the down key followed by submit yields No.
\<close>

theorem submit_yields_selected:
  assumes "normalise raws \<noteq> []"
    and "cfg = \<lparr>options = normalise raws, question = split_str CHR 0x0A q, rows = r\<rparr>"
    and "feed cfg (initial cfg) evs = Await s"
  shows "askQuestion q raws r (evs @ Line l # rest) =
           Some (Inr (val (filteredOptions s ! nat (selectedOptionIndex s))))
       \<and> askQuestion q raws r (evs @ Data (sentinel @ '':submit'') # rest) =
           Some (Inr (val (filteredOptions s ! nat (selectedOptionIndex s))))
       \<and> askQuestion q' [RString ''Yes'', RString ''No''] r'
           [Data (sentinel @ '':keypress:down''), Data (sentinel @ '':submit'')] =
           Some (Inr (VString ''No''))
       \<and> askQuestion q' [RString ''Yes'', RString ''No''] r'
           [Keypress (Some ''down'') [], Keypress (Some ''return'') [], Line []] =
           Some (Inr (VString ''No''))"
proof -
  have o: "options cfg \<noteq> []" using assms(1,2) by simp
  have i: "in_range s"
    using in_range_feed [OF in_range_initial [OF o] o assms(3)] .
  have a: "run cfg (initial cfg) (evs @ Line l # rest) = Some (response_value s)"
    by (simp add: run_def feed_append [OF assms(3)])
  have b: "run cfg (initial cfg) (evs @ Data (sentinel @ '':submit'') # rest) =
      Some (response_value s)"
    by (simp add: run_def feed_append [OF assms(3)] on_data_submit)
  have c1: "askQuestion q' [RString ''Yes'', RString ''No''] r'
           [Data (sentinel @ '':keypress:down''), Data (sentinel @ '':submit'')] =
           Some (Inr (VString ''No''))"
    by (simp add: askQuestion_def normalise_def run_def sample_down on_data_submit
        eventListener_def initial_def response_value_def element_def)
  have c2: "askQuestion q' [RString ''Yes'', RString ''No''] r'
           [Keypress (Some ''down'') [], Keypress (Some ''return'') [], Line []] =
           Some (Inr (VString ''No''))"
    by (simp add: askQuestion_def normalise_def run_def eventListener_def
        initial_def response_value_def element_def)
  have d: "askQuestion q raws r later = run cfg (initial cfg) later" for later
    using assms(1,2) by (simp add: askQuestion_def Let_def)
  show ?thesis
    using a b c1 c2 by (simp add: d response_in_range [OF i])
qed

text \<open>The theorem at the yes/no prompt after one down key.\<close>

theorem submit_yields_selected_witness:
  "normalise [RString ''Yes'', RString ''No''] \<noteq> []
   \<and> feed yes_no (initial yes_no) [Data (sentinel @ '':keypress:down'')] =
       Await ((initial yes_no)\<lparr>selectedOptionIndex := 1\<rparr>)
   \<and> askQuestion ''Sure?'' [RString ''Yes'', RString ''No''] (Some 24)
       ([Data (sentinel @ '':keypress:down'')] @ Line [] # []) = Some (Inr (VString ''No''))"
proof -
  have h1: "normalise [RString ''Yes'', RString ''No''] \<noteq> []"
    by (simp add: normalise_def)
  have h2: "yes_no = \<lparr>options = normalise [RString ''Yes'', RString ''No''],
      question = split_str CHR 0x0A ''Sure?'', rows = Some 24\<rparr>"
    by (simp add: yes_no_def)
  have h3: "feed yes_no (initial yes_no) [Data (sentinel @ '':keypress:down'')] =
       Await ((initial yes_no)\<lparr>selectedOptionIndex := 1\<rparr>)"
    by (simp add: sample_down eventListener_def yes_no_def initial_def normalise_def)
  have v: "val (filteredOptions ((initial yes_no)\<lparr>selectedOptionIndex := 1\<rparr>)
      ! nat (selectedOptionIndex ((initial yes_no)\<lparr>selectedOptionIndex := 1\<rparr>))) =
      VString ''No''"
    by (simp add: yes_no_def initial_def normalise_def)
  show ?thesis
    using h1 h3 submit_yields_selected [OF h1 h2 h3, of "[]" "[]"] v by simp
qed

subsection \<open>Moving the selection\<close>

lemma listen_up:
  "eventListener cfg s (Some ''up'') =
     Inr (s\<lparr>selectedOptionIndex :=
            (if selectedOptionIndex s = 0 then int (length (filteredOptions s)) - 1
             else max 0 (selectedOptionIndex s - 1))\<rparr>)"
  by (simp add: eventListener_def)

lemma listen_down:
  "eventListener cfg s (Some ''down'') =
     Inr (s\<lparr>selectedOptionIndex :=
            (if selectedOptionIndex s = int (length (filteredOptions s)) - 1 then 0
             else min (int (length (filteredOptions s)) - 1) (selectedOptionIndex s + 1))\<rparr>)"
  by (simp add: eventListener_def)

lemma down_mod:
  "in_range s \<Longrightarrow>
   react cfg s (Data (sentinel @ '':keypress:down'')) =
     Await (s\<lparr>selectedOptionIndex :=
              (selectedOptionIndex s + 1) mod int (length (filteredOptions s))\<rparr>)"
  by (auto simp: sample_down listen_down in_range_def)

lemma up_mod:
  "in_range s \<Longrightarrow>
   react cfg s (Data (sentinel @ '':keypress:up'')) =
     Await (s\<lparr>selectedOptionIndex :=
              (selectedOptionIndex s - 1) mod int (length (filteredOptions s))\<rparr>)"
  using on_data_keypress [of "''up''" cfg s]
  by (auto simp: listen_up in_range_def zmod_minus1)

lemma down_times:
  "in_range s \<Longrightarrow>
   feed cfg s (replicate k (Data (sentinel @ '':keypress:down''))) =
     Await (s\<lparr>selectedOptionIndex :=
              (selectedOptionIndex s + int k) mod int (length (filteredOptions s))\<rparr>)"
proof (induction k arbitrary: s)
  case 0
  then show ?case by (simp add: in_range_def)
next
  case (Suc k)
  let ?n = "int (length (filteredOptions s))"
  let ?s' = "s\<lparr>selectedOptionIndex := (selectedOptionIndex s + 1) mod ?n\<rparr>"
  have pos: "0 < ?n" using Suc.prems unfolding in_range_def by linarith
  then have r: "in_range ?s'" by (simp add: in_range_def)
  have "((selectedOptionIndex s + 1) mod ?n + int k) mod ?n =
      (selectedOptionIndex s + int (Suc k)) mod ?n"
    unfolding mod_add_left_eq by (simp add: algebra_simps)
  then show ?case
    using Suc.IH [OF r] down_mod [OF Suc.prems, of cfg] by simp
qed

lemma up_times:
  "in_range s \<Longrightarrow>
   feed cfg s (replicate k (Data (sentinel @ '':keypress:up''))) =
     Await (s\<lparr>selectedOptionIndex :=
              (selectedOptionIndex s - int k) mod int (length (filteredOptions s))\<rparr>)"
proof (induction k arbitrary: s)
  case 0
  then show ?case by (simp add: in_range_def)
next
  case (Suc k)
  let ?n = "int (length (filteredOptions s))"
  let ?s' = "s\<lparr>selectedOptionIndex := (selectedOptionIndex s - 1) mod ?n\<rparr>"
  have pos: "0 < ?n" using Suc.prems unfolding in_range_def by linarith
  then have r: "in_range ?s'" by (simp add: in_range_def)
  have "((selectedOptionIndex s - 1) mod ?n - int k) mod ?n =
      (selectedOptionIndex s - int (Suc k)) mod ?n"
    unfolding mod_diff_left_eq by (simp add: algebra_simps)
  then show ?case
    using Suc.IH [OF r] up_mod [OF Suc.prems, of cfg] by simp
qed

text \<open>
  Claim C4. With \<open>n\<close> options shown and the selection at an index from 0 up to
  \<open>n - 1\<close>, the up key moves the selection to \<open>n - 1\<close> from 0 and one down
  otherwise, the down key moves it to 0 from \<open>n - 1\<close> and one up otherwise,
  and \<open>n\<close> down keys in a row, as well as \<open>n\<close> up keys, bring the prompt back
  to the state it started from.
\<close>

theorem wraparound:
  assumes "0 \<le> selectedOptionIndex s"
    and "selectedOptionIndex s < int (length (filteredOptions s))"
  shows "eventListener cfg s (Some ''up'') =
           Inr (s\<lparr>selectedOptionIndex :=
                  (if selectedOptionIndex s = 0 then int (length (filteredOptions s)) - 1
                   else selectedOptionIndex s - 1)\<rparr>)
       \<and> eventListener cfg s (Some ''down'') =
           Inr (s\<lparr>selectedOptionIndex :=
                  (if selectedOptionIndex s = int (length (filteredOptions s)) - 1 then 0
                   else selectedOptionIndex s + 1)\<rparr>)
       \<and> feed cfg s (replicate (length (filteredOptions s))
            (Data (sentinel @ '':keypress:down''))) = Await s
       \<and> feed cfg s (replicate (length (filteredOptions s))
            (Data (sentinel @ '':keypress:up''))) = Await s"
proof -
  have r: "in_range s" using assms by (simp add: in_range_def)
  have u: "max 0 (selectedOptionIndex s - 1) = selectedOptionIndex s - 1"
    if "selectedOptionIndex s \<noteq> 0"
    using assms that by simp
  have d: "min (int (length (filteredOptions s)) - 1) (selectedOptionIndex s + 1) =
      selectedOptionIndex s + 1"
    if "selectedOptionIndex s \<noteq> int (length (filteredOptions s)) - 1"
    using assms that by arith
  show ?thesis
    using down_times [OF r, of cfg "length (filteredOptions s)"]
      up_times [OF r, of cfg "length (filteredOptions s)"] assms u d
    by (simp add: listen_up listen_down)
qed

text \<open>The theorem at the yes/no prompt with No selected.\<close>

theorem wraparound_witness:
  "0 \<le> selectedOptionIndex ((initial yes_no)\<lparr>selectedOptionIndex := 1\<rparr>)
   \<and> selectedOptionIndex ((initial yes_no)\<lparr>selectedOptionIndex := 1\<rparr>)
       < int (length (filteredOptions ((initial yes_no)\<lparr>selectedOptionIndex := 1\<rparr>)))
   \<and> eventListener yes_no ((initial yes_no)\<lparr>selectedOptionIndex := 1\<rparr>) (Some ''down'') =
       Inr (initial yes_no)
   \<and> feed yes_no ((initial yes_no)\<lparr>selectedOptionIndex := 1\<rparr>)
       [Data (sentinel @ '':keypress:down''), Data (sentinel @ '':keypress:down'')] =
       Await ((initial yes_no)\<lparr>selectedOptionIndex := 1\<rparr>)"
proof -
  have n: "length (filteredOptions (initial yes_no)) = 2"
    by (simp add: yes_no_def initial_def normalise_def)
  have h1: "0 \<le> selectedOptionIndex ((initial yes_no)\<lparr>selectedOptionIndex := 1\<rparr>)"
    by simp
  have h2: "selectedOptionIndex ((initial yes_no)\<lparr>selectedOptionIndex := 1\<rparr>)
      < int (length (filteredOptions ((initial yes_no)\<lparr>selectedOptionIndex := 1\<rparr>)))"
    by (simp add: n)
  have z: "(initial yes_no)\<lparr>selectedOptionIndex := 0\<rparr> = initial yes_no"
    by (simp add: initial_def)
  have two: "replicate 2 x = [x, x]" for x :: event
    by (simp add: numeral_2_eq_2)
  show ?thesis
    using h1 h2 wraparound [OF h1 h2, of yes_no] by (simp add: n z two)
qed

subsection \<open>Editing the filter\<close>

lemma listen_other:
  "other_key cfg key \<Longrightarrow> key \<noteq> Some ''escape'' \<Longrightarrow>
   eventListener cfg (s\<lparr>line := Some l\<rparr>) key =
     Inr (s\<lparr>line := Some l, filter_str := toLowerCase l,
            filteredOptions :=
              (if rank_options (options cfg) (toLowerCase l) = [] then options cfg
               else rank_options (options cfg) (toLowerCase l)),
            selectedOptionIndex := 0\<rparr>)"
  by (auto simp: eventListener_def other_key_def Let_def)

lemma line_same: "line s = l \<Longrightarrow> s\<lparr>line := l\<rparr> = s"
  by auto

lemma sort_js_Nil: "sort_js cmp [] = []"
  by (simp add: sort_js_def)

lemma rank_no_match:
  "\<forall>option \<in> set opts. \<not> includes_str (toLowerCase (name option)) f \<Longrightarrow>
   (if rank_options opts f = [] then opts else rank_options opts f) = opts"
  by (simp add: rank_options_def sort_js_Nil)

text \<open>
  Claim C3. When no option's name contains the text of the edit buffer, both
  in lower case, a key that edits the filter leaves the full option list in
  its original order as the list shown and puts the selection at index 0.
\<close>

theorem fallback_to_all_options:
  assumes "\<forall>option \<in> set (options cfg).
             \<not> includes_str (toLowerCase (name option)) (toLowerCase f)"
    and "other_key cfg key" and "key \<noteq> Some ''escape''"
  shows "react cfg s (Keypress key f) =
           Await (s\<lparr>line := Some f, filter_str := toLowerCase f,
                    filteredOptions := options cfg, selectedOptionIndex := 0\<rparr>)"
  using assms by (simp add: listen_other rank_no_match)

text \<open>The theorem at the yes/no prompt, No selected, when z is typed.\<close>

theorem fallback_to_all_options_witness:
  "map name (options yes_no) = [''Yes'', ''No'']
   \<and> \<not> includes_str (toLowerCase ''Yes'') (toLowerCase ''z'')
   \<and> \<not> includes_str (toLowerCase ''No'') (toLowerCase ''z'')
   \<and> other_key yes_no (Some ''z'') \<and> Some ''z'' \<noteq> Some ''escape''
   \<and> react yes_no ((initial yes_no)\<lparr>selectedOptionIndex := 1\<rparr>) (Keypress (Some ''z'') ''z'') =
       Await ((initial yes_no)\<lparr>line := Some ''z'', filter_str := ''z''\<rparr>)"
proof -
  have h1: "\<forall>option \<in> set (options yes_no).
      \<not> includes_str (toLowerCase (name option)) (toLowerCase ''z'')"
    by code_simp
  have h2: "other_key yes_no (Some ''z'')" by (simp add: other_key_def)
  have h3: "Some ''z'' \<noteq> Some ''escape''" by simp
  have l: "toLowerCase ''z'' = ''z''" by code_simp
  have i: "filteredOptions (initial yes_no) = options yes_no"
    "selectedOptionIndex (initial yes_no) = 0"
    by (simp_all add: initial_def)
  have e: "(initial yes_no)\<lparr>selectedOptionIndex := 1, line := Some ''z'', filter_str := ''z'',
      filteredOptions := options yes_no, selectedOptionIndex := 0\<rparr> =
      (initial yes_no)\<lparr>line := Some ''z'', filter_str := ''z''\<rparr>"
    by (simp add: initial_def)
  have n: "map name (options yes_no) = [''Yes'', ''No'']"
    by (simp add: yes_no_def normalise_def)
  have m: "\<not> includes_str (toLowerCase ''Yes'') (toLowerCase ''z'')"
    "\<not> includes_str (toLowerCase ''No'') (toLowerCase ''z'')"
    by code_simp+
  show ?thesis
    using n m h2 h3
      fallback_to_all_options [OF h1 h2 h3, of "(initial yes_no)\<lparr>selectedOptionIndex := 1\<rparr>"]
    by (simp only: l e simp_thms)
qed

text \<open>
  Claim C10. After an escape key the edit buffer and the filter text are
  empty, the list shown is the full option list in its original order, and the
  selection is at index 0: the key takes the branch of every other filter edit.
\<close>

theorem escape_resets:
  "react cfg s (Keypress (Some ''escape'') buffer) =
     Await (s\<lparr>line := Some [], filter_str := [], filteredOptions := options cfg,
              selectedOptionIndex := 0\<rparr>)
   \<and> react cfg s (Data (sentinel @ '':keypress:escape'')) =
     Await (s\<lparr>line := Some [], filter_str := [], filteredOptions := options cfg,
              selectedOptionIndex := 0\<rparr>)"
  using on_data_keypress [of "''escape''" cfg s]
  by (simp add: eventListener_def rank_options_def toLowerCase_def)

text \<open>The theorem at the yes/no prompt with No selected and n typed.\<close>

theorem escape_resets_witness:
  "react yes_no
     \<lparr>selectedOptionIndex = 0, questionIndex = 0, filter_str = ''n'',
      filteredOptions = [\<lparr>ident = Fresh 1, name = ''No'', val = VString ''No''\<rparr>],
      line = Some ''n''\<rparr>
     (Keypress (Some ''escape'') ''n'') =
   Await ((initial yes_no)\<lparr>line := Some []\<rparr>)"
  using escape_resets [of yes_no
      "\<lparr>selectedOptionIndex = 0, questionIndex = 0, filter_str = ''n'',
        filteredOptions = [\<lparr>ident = Fresh 1, name = ''No'', val = VString ''No''\<rparr>],
        line = Some ''n''\<rparr>" "''n''"]
  by (simp add: initial_def)

subsection \<open>Page keys\<close>

lemma page_keys_other:
  "\<not> scrollbar cfg \<Longrightarrow> key = Some ''pageup'' \<or> key = Some ''pagedown'' \<Longrightarrow>
   other_key cfg key \<and> key \<noteq> Some ''escape''"
  by (auto simp: other_key_def)

text \<open>
  Claim C5 as stated (without a scrollbar a page key leaves the whole state as
  it is) fails: at the yes/no prompt, which has no scrollbar, the down key
  selects No, and the page-up key that follows puts the selection back on Yes.
\<close>

theorem page_keys_counterexample:
  "\<not> scrollbar yes_no
   \<and> feed yes_no (initial yes_no) [Keypress (Some ''down'') []] =
       Await ((initial yes_no)\<lparr>selectedOptionIndex := 1\<rparr>)
   \<and> react yes_no ((initial yes_no)\<lparr>selectedOptionIndex := 1\<rparr>)
       (Keypress (Some ''pageup'') []) = Await (initial yes_no)
   \<and> (initial yes_no)\<lparr>selectedOptionIndex := 1\<rparr> \<noteq> initial yes_no"
  by (simp add: yes_no_def scrollbar_def questionRows_def initial_def eventListener_def
      normalise_def rank_options_def toLowerCase_def)

text \<open>
  Claim C5, amended. Without a scrollbar a page-up or page-down key leaves the
  scroll offset of the question as it is and is otherwise handled like any key
  that edits the filter: the filter text becomes the edit buffer in lower
  case, the list shown is computed again, and the selection goes to index 0.
\<close>

theorem page_keys_without_scrollbar:
  assumes "\<not> scrollbar cfg" and "key = Some ''pageup'' \<or> key = Some ''pagedown''"
  shows "react cfg s (Keypress key l) =
           Await (s\<lparr>line := Some l, filter_str := toLowerCase l,
                    filteredOptions :=
                      (if rank_options (options cfg) (toLowerCase l) = [] then options cfg
                       else rank_options (options cfg) (toLowerCase l)),
                    selectedOptionIndex := 0\<rparr>)
       \<and> react cfg s (Keypress key l) = react cfg s (Keypress None l)
       \<and> (\<forall>s'. eventListener cfg s key = Inr s' \<longrightarrow> questionIndex s' = questionIndex s)"
proof -
  have o: "other_key cfg key" "key \<noteq> Some ''escape''"
    using page_keys_other [OF assms] by simp_all
  have n: "other_key cfg None" by (simp add: other_key_def)
  have q: "questionIndex s' = questionIndex s" if "eventListener cfg s key = Inr s'" for s'
    using that assms by (auto simp: eventListener_def Let_def split: option.splits)
  show ?thesis
    using q by (simp add: listen_other [OF o] listen_other [OF n])
qed

text \<open>The amended statement at the yes/no prompt with No selected.\<close>

theorem page_keys_without_scrollbar_witness:
  "\<not> scrollbar yes_no
   \<and> (Some ''pagedown'' = Some ''pageup'' \<or> Some ''pagedown'' = Some ''pagedown'')
   \<and> react yes_no ((initial yes_no)\<lparr>selectedOptionIndex := 1\<rparr>)
       (Keypress (Some ''pagedown'') []) = Await (initial yes_no)"
proof -
  have h1: "\<not> scrollbar yes_no"
    by (simp add: yes_no_def scrollbar_def questionRows_def normalise_def)
  have h2: "Some ''pagedown'' = Some ''pageup'' \<or> Some ''pagedown'' = Some ''pagedown''"
    by simp
  show ?thesis
    using h1 page_keys_without_scrollbar [OF h1 h2,
        of "(initial yes_no)\<lparr>selectedOptionIndex := 1\<rparr>" "[]"]
    by (simp add: initial_def toLowerCase_def rank_options_def)
qed

subsection \<open>Injected commands and real keys\<close>

text \<open>
  Claim C6 as stated (an injected \<^verbatim>\<open>set_line\<close> command leaves the prompt in
  the state that typing the text leaves it in) fails: at the yes/no prompt the
  command with the text n changes the edit buffer and nothing else, while the
  key n arriving with the buffer n sets the filter text to n and narrows the
  list shown to No.
\<close>

theorem set_line_counterexample:
  "on_data yes_no (initial yes_no) (sentinel @ '':set_line:n'') =
     Await ((initial yes_no)\<lparr>line := Some ''n''\<rparr>)
   \<and> react yes_no (initial yes_no) (Keypress (Some ''n'') ''n'') =
     Await ((initial yes_no)\<lparr>line := Some ''n'', filter_str := ''n'',
              filteredOptions := [\<lparr>ident = Fresh 1, name = ''No'', val = VString ''No''\<rparr>]\<rparr>)
   \<and> filter_str ((initial yes_no)\<lparr>line := Some ''n''\<rparr>) \<noteq> ''n''
   \<and> filteredOptions ((initial yes_no)\<lparr>line := Some ''n''\<rparr>)
       \<noteq> [\<lparr>ident = Fresh 1, name = ''No'', val = VString ''No''\<rparr>]"
  by code_simp

text \<open>
  Claim C6, amended. An injected \<^verbatim>\<open>keypress\<close> command runs the listener of
  the named key on the current state, as the real key does when readline
  leaves the edit buffer alone, and an injected \<^verbatim>\<open>submit\<close> resolves the
  prompt as a submitted line does. An injected \<^verbatim>\<open>set_line\<close> command with a text
  free of colons overwrites the edit buffer and changes nothing else; once an
  injected key follows, the state is the one the real key arriving with that
  edit buffer produces: for a key that edits the filter, the filter text is
  the text in lower case, the list shown is computed again, and the selection
  is at index 0.
\<close>

theorem injected_commands:
  assumes "CHR '':'' \<notin> set k" and "CHR '':'' \<notin> set txt"
  shows "(line s = Some l \<longrightarrow>
            react cfg s (Data (sentinel @ '':keypress:'' @ k)) =
              react cfg s (Keypress (Some k) l))
       \<and> react cfg s (Data (sentinel @ '':submit'')) = react cfg s (Line l)
       \<and> react cfg s (Data (sentinel @ '':set_line:'' @ txt)) = Await (s\<lparr>line := Some txt\<rparr>)
       \<and> feed cfg s
           [Data (sentinel @ '':set_line:'' @ txt), Data (sentinel @ '':keypress:'' @ k)] =
           feed cfg s [Keypress (Some k) txt]
       \<and> (other_key cfg (Some k) \<and> k \<noteq> ''escape'' \<longrightarrow>
            feed cfg s
              [Data (sentinel @ '':set_line:'' @ txt), Data (sentinel @ '':keypress:'' @ k)] =
              Await (s\<lparr>line := Some txt, filter_str := toLowerCase txt,
                       filteredOptions :=
                         (if rank_options (options cfg) (toLowerCase txt) = [] then options cfg
                          else rank_options (options cfg) (toLowerCase txt)),
                       selectedOptionIndex := 0\<rparr>))"
proof -
  have a: "react cfg s (Data (sentinel @ '':keypress:'' @ k)) =
      react cfg s (Keypress (Some k) l)"
    if "line s = Some l"
    using line_same [OF that] on_data_keypress [OF assms(1), of cfg s] by simp
  have b: "react cfg s (Data (sentinel @ '':submit'')) = react cfg s (Line l)"
    by (simp add: on_data_submit)
  have c: "react cfg s (Data (sentinel @ '':set_line:'' @ txt)) = Await (s\<lparr>line := Some txt\<rparr>)"
    using on_data_set_line [OF assms(2), of cfg s] by simp
  have d: "feed cfg s
      [Data (sentinel @ '':set_line:'' @ txt), Data (sentinel @ '':keypress:'' @ k)] =
      feed cfg s [Keypress (Some k) txt]"
    using on_data_set_line [OF assms(2), of cfg s]
      on_data_keypress [OF assms(1), of cfg "s\<lparr>line := Some txt\<rparr>"] by simp
  have e: "feed cfg s [Keypress (Some k) txt] =
      Await (s\<lparr>line := Some txt, filter_str := toLowerCase txt,
               filteredOptions :=
                 (if rank_options (options cfg) (toLowerCase txt) = [] then options cfg
                  else rank_options (options cfg) (toLowerCase txt)),
               selectedOptionIndex := 0\<rparr>)"
    if "other_key cfg (Some k)" "k \<noteq> ''escape''"
    using that by (simp add: listen_other)
  show ?thesis
    using a b c d e by simp
qed

text \<open>
  The amended statement at the yes/no prompt: the buffer is set to n, then the
  key x is injected.
\<close>

theorem injected_commands_witness:
  "CHR '':'' \<notin> set ''x'' \<and> CHR '':'' \<notin> set ''n''
   \<and> other_key yes_no (Some ''x'') \<and> ''x'' \<noteq> ''escape''
   \<and> react yes_no (initial yes_no) (Data (sentinel @ '':set_line:'' @ ''n'')) =
       Await ((initial yes_no)\<lparr>line := Some ''n''\<rparr>)
   \<and> feed yes_no (initial yes_no)
       [Data (sentinel @ '':set_line:'' @ ''n''), Data (sentinel @ '':keypress:'' @ ''x'')] =
       Await ((initial yes_no)\<lparr>line := Some ''n'', filter_str := ''n'',
                filteredOptions := [\<lparr>ident = Fresh 1, name = ''No'', val = VString ''No''\<rparr>],
                selectedOptionIndex := 0\<rparr>)"
proof -
  have h1: "CHR '':'' \<notin> set ''x''" by simp
  have h2: "CHR '':'' \<notin> set ''n''" by simp
  have h3: "other_key yes_no (Some ''x'') \<and> ''x'' \<noteq> ''escape''"
    by (simp add: other_key_def)
  have l: "toLowerCase ''n'' = ''n''" by code_simp
  have r: "(if rank_options (options yes_no) ''n'' = [] then options yes_no
            else rank_options (options yes_no) ''n'') =
           [\<lparr>ident = Fresh 1, name = ''No'', val = VString ''No''\<rparr>]"
    by code_simp
  note t = injected_commands [OF h1 h2, of "initial yes_no" "[]" yes_no, unfolded l r]
  from t have c3: "react yes_no (initial yes_no) (Data (sentinel @ '':set_line:'' @ ''n'')) =
       Await ((initial yes_no)\<lparr>line := Some ''n''\<rparr>)"
    by blast
  from t h3 have c5: "feed yes_no (initial yes_no)
       [Data (sentinel @ '':set_line:'' @ ''n''), Data (sentinel @ '':keypress:'' @ ''x'')] =
       Await ((initial yes_no)\<lparr>line := Some ''n'', filter_str := ''n'',
                filteredOptions := [\<lparr>ident = Fresh 1, name = ''No'', val = VString ''No''\<rparr>],
                selectedOptionIndex := 0\<rparr>)"
    by blast
  from h1 h2 h3 c3 c5 show ?thesis by blast
qed

subsection \<open>Free text\<close>

lemma normalise_from_length:
  "length (normalise_from i raws) = length (filter truthy raws)"
  by (induction i raws rule: normalise_from.induct) auto

lemma normalise_from_falsy: "\<forall>r \<in> set raws. \<not> truthy r \<Longrightarrow> normalise_from i raws = []"
  by (induction i raws rule: normalise_from.induct) auto

lemma free_text_nonempty: "free_text evs \<noteq> Some (Inr (VString []))"
  by (induction evs rule: free_text.induct) auto

lemma free_text_empty_lines: "free_text (replicate n (Line [])) = None"
  by (induction n) auto

text \<open>
  Claim C7. When no option is supplied, or every supplied option is falsy, an
  empty line does not end the prompt, however often it is submitted; the
  prompt goes on with the events that follow. A line that is not empty ends
  the prompt, which returns that line as it is, and the empty string is never
  returned.
\<close>

theorem free_text_mode:
  assumes "\<forall>r \<in> set raws. \<not> truthy r"
  shows "askQuestion q raws r (replicate n (Line [])) = None
       \<and> askQuestion q raws r (Line [] # es) = askQuestion q raws r es
       \<and> (l \<noteq> [] \<longrightarrow> askQuestion q raws r (Line l # es) = Some (Inr (VString l)))
       \<and> askQuestion q raws r evs \<noteq> Some (Inr (VString []))"
  using assms
  by (simp add: askQuestion_def normalise_def normalise_from_falsy free_text_nonempty
      free_text_empty_lines)

text \<open>The theorem for a question whose only options are falsy, answered by x.\<close>

theorem free_text_mode_witness:
  "\<not> truthy (RString []) \<and> \<not> truthy RFalsy
   \<and> ''x'' \<noteq> []
   \<and> askQuestion ''Title?'' [RString [], RFalsy] None [Line [], Line []] = None
   \<and> askQuestion ''Title?'' [RString [], RFalsy] None [Line ''x''] = Some (Inr (VString ''x''))"
proof -
  have h: "\<forall>r \<in> set [RString [], RFalsy]. \<not> truthy r" by simp
  have two: "replicate 2 (Line []) = [Line [], Line []]"
    by (simp add: numeral_2_eq_2)
  show ?thesis
    using free_text_mode [OF h, of "''Title?''" None 2 "[]" "''x''"]
    by (simp add: two)
qed

subsection \<open>The scratch file\<close>

lemma cleanup_removes: "cleanup file fs = Inr (fs(file := None))"
  by (auto simp: cleanup_def existsSync_def unlinkSync_def)

lemma finish_removes: "finish file v fs = Some (Inr (v, fs(file := None)))"
  by (simp add: finish_def cleanup_removes)

lemma read_back_missing:
  "fs file = None \<Longrightarrow> read_back file content fs = Inr (fs(file \<mapsto> content), content)"
  by (simp add: read_back_def existsSync_def writeFile_def)

lemma read_back_present:
  "fs file = Some c \<Longrightarrow> read_back file content fs = Inr (fs, c)"
  by (simp add: read_back_def existsSync_def readFile_def)

text \<open>
  Claim C8. Let the menu be answered with continue. If the scratch file is
  gone by then, it is written again: afterwards it holds the initial content,
  which is the result; otherwise the result is what the file holds. Whenever
  the result equals the initial content the flow waits for the answer to the
  yes/no confirmation: Yes ends it with that content and the scratch file
  removed, every other answer leads back to the menu, with the scratch file in
  place and holding the initial content. A result that differs from the
  initial content ends the flow at once.
\<close>

theorem continue_unmodified:
  assumes "askQuestion q (menu file) r (events s1) = Some (Inr (VString ''continue''))"
    and "fs1 = fold apply_op (external s1) fs"
  shows "(fs1 file = None \<longrightarrow>
            read_back file content fs1 = Inr (fs1(file \<mapsto> content), content))
       \<and> (fs1 file = Some c \<longrightarrow> read_back file content fs1 = Inr (fs1, c))
       \<and> (fs1 file = None \<or> fs1 file = Some content \<longrightarrow>
            menu_loop q file content r fs [s1] = None
            \<and> (askQuestion confirm_question [RString ''Yes'', RString ''No''] r (events s2) =
                  Some (Inr yesno) \<longrightarrow>
                menu_loop q file content r fs (s1 # s2 # rest) =
                  (if yesno = VString ''Yes''
                   then Some (Inr (VString content,
                          (fold apply_op (external s2) (fs1(file \<mapsto> content)))(file := None)))
                   else menu_loop q file content r
                          (fold apply_op (external s2) (fs1(file \<mapsto> content))) rest)))
       \<and> (fs1 file = Some c \<and> c \<noteq> content \<longrightarrow>
            menu_loop q file content r fs (s1 # rest) =
              Some (Inr (VString c, fs1(file := None))))"
proof -
  have same: "fs1(file \<mapsto> content) = fs1" if "fs1 file = Some content"
    using that by (simp add: fun_upd_idem)
  have a: "read_back file content fs1 = Inr (fs1(file \<mapsto> content), content)"
    if "fs1 file = None \<or> fs1 file = Some content"
    using that read_back_missing [of fs1 "file" content]
      read_back_present [of fs1 "file" content content] same by auto
  have wait: "menu_loop q file content r fs [s1] = None"
    if "fs1 file = None \<or> fs1 file = Some content"
    using assms a [OF that] by simp
  have asked: "menu_loop q file content r fs (s1 # s2 # rest) =
      (if yesno = VString ''Yes''
       then Some (Inr (VString content,
              (fold apply_op (external s2) (fs1(file \<mapsto> content)))(file := None)))
       else menu_loop q file content r
              (fold apply_op (external s2) (fs1(file \<mapsto> content))) rest)"
    if "fs1 file = None \<or> fs1 file = Some content"
      and "askQuestion confirm_question [RString ''Yes'', RString ''No''] r (events s2) =
        Some (Inr yesno)"
    using assms a [OF that(1)] that(2) by (simp add: finish_removes)
  have modified: "menu_loop q file content r fs (s1 # rest) =
      Some (Inr (VString c, fs1(file := None)))"
    if "fs1 file = Some c" "c \<noteq> content"
    using assms read_back_present [of fs1 "file" c content] that
    by (simp add: finish_removes)
  show ?thesis
    using read_back_missing [of fs1 "file" content] read_back_present [of fs1 "file" c content]
      wait asked modified by blast
qed

text \<open>
  The theorem for the content hello, beside a file that is left alone: the
  scratch file is removed while the menu is open, Continue is chosen, the file
  is written again, and the confirmation is answered with Yes.
\<close>

theorem continue_unmodified_witness:
  "askQuestion ''Q'' (menu ''f.md'') None
     [Data (sentinel @ '':keypress:down''), Data (sentinel @ '':submit'')] =
     Some (Inr (VString ''continue''))
   \<and> askQuestion confirm_question [RString ''Yes'', RString ''No''] None
       [Data (sentinel @ '':submit'')] = Some (Inr (VString ''Yes''))
   \<and> fold apply_op [Removed ''f.md''] [''notes.md'' \<mapsto> ''x'', ''f.md'' \<mapsto> ''hello''] =
       [''notes.md'' \<mapsto> ''x'']
   \<and> read_back ''f.md'' ''hello'' [''notes.md'' \<mapsto> ''x''] =
       Inr ([''notes.md'' \<mapsto> ''x'', ''f.md'' \<mapsto> ''hello''], ''hello'')
   \<and> menu_loop ''Q'' ''f.md'' ''hello'' None [''notes.md'' \<mapsto> ''x'', ''f.md'' \<mapsto> ''hello'']
       [\<lparr>events = [Data (sentinel @ '':keypress:down''), Data (sentinel @ '':submit'')],
         external = [Removed ''f.md''], editor_ok = True\<rparr>,
        \<lparr>events = [Data (sentinel @ '':submit'')], external = [], editor_ok = True\<rparr>] =
       Some (Inr (VString ''hello'', [''notes.md'' \<mapsto> ''x'']))"
proof -
  let ?s1 = "\<lparr>events = [Data (sentinel @ '':keypress:down''), Data (sentinel @ '':submit'')],
              external = [Removed ''f.md''], editor_ok = True\<rparr>"
  let ?s2 = "\<lparr>events = [Data (sentinel @ '':submit'')], external = [], editor_ok = True\<rparr>"
  let ?fs = "[''notes.md'' \<mapsto> ''x'', ''f.md'' \<mapsto> ''hello'']"
  let ?fs1 = "[''notes.md'' \<mapsto> ''x'']"
  have c1: "askQuestion ''Q'' (menu ''f.md'') None
     [Data (sentinel @ '':keypress:down''), Data (sentinel @ '':submit'')] =
     Some (Inr (VString ''continue''))"
    by code_simp
  have c2: "askQuestion confirm_question [RString ''Yes'', RString ''No''] None
       [Data (sentinel @ '':submit'')] = Some (Inr (VString ''Yes''))"
    by code_simp
  have h1: "askQuestion ''Q'' (menu ''f.md'') None (events ?s1) =
      Some (Inr (VString ''continue''))"
    using c1 by simp
  have h2: "?fs1 = fold apply_op (external ?s1) ?fs"
    by (simp add: fun_upd_twist)
  have gone: "?fs1 ''f.md'' = None" by simp
  have a2: "askQuestion confirm_question [RString ''Yes'', RString ''No''] None (events ?s2) =
      Some (Inr (VString ''Yes''))"
    using c2 by simp
  have e: "(fold apply_op (external ?s2) (?fs1(''f.md'' \<mapsto> ''hello'')))(''f.md'' := None) = ?fs1"
    by simp
  note t = continue_unmodified [OF h1 h2, of "''hello''" "''hello''" ?s2 "VString ''Yes''" "[]"]
  from t gone have rb: "read_back ''f.md'' ''hello'' ?fs1 =
      Inr (?fs1(''f.md'' \<mapsto> ''hello''), ''hello'')"
    by blast
  from t gone a2 have "menu_loop ''Q'' ''f.md'' ''hello'' None ?fs (?s1 # ?s2 # []) =
      (if VString ''Yes'' = VString ''Yes''
       then Some (Inr (VString ''hello'',
              (fold apply_op (external ?s2) (?fs1(''f.md'' \<mapsto> ''hello'')))(''f.md'' := None)))
       else menu_loop ''Q'' ''f.md'' ''hello'' None
              (fold apply_op (external ?s2) (?fs1(''f.md'' \<mapsto> ''hello''))) [])"
    by blast
  then have ml: "menu_loop ''Q'' ''f.md'' ''hello'' None ?fs [?s1, ?s2] =
      Some (Inr (VString ''hello'', ?fs1))"
    unfolding e by simp
  have f: "fold apply_op [Removed ''f.md''] ?fs = ?fs1"
    using h2 by simp
  from c1 c2 f rb ml show ?thesis by blast
qed

text \<open>
  Claim C9. When the menu is answered with abort, \<^verbatim>\<open>askFileInput\<close> returns
  \<^verbatim>\<open>false\<close>, in any round of the loop, and the scratch file does not exist
  afterwards. The cleanup removes the file only if it is there, so it never
  fails, and on a file already removed it changes nothing.
\<close>

theorem abort_returns_false:
  assumes "askQuestion q (menu file) r (events s1) = Some (Inr (VString ''abort''))"
  shows "menu_loop q file content r fs (s1 # rest) =
           Some (Inr (VBool False, (fold apply_op (external s1) fs)(file := None)))
       \<and> askFileInput q file content r fs (s1 # rest) =
           Some (Inr (VBool False,
             (fold apply_op (external s1) (writeFile file content fs))(file := None)))
       \<and> \<not> existsSync ((fold apply_op (external s1) fs)(file := None)) file
       \<and> cleanup file fs = Inr (fs(file := None))
       \<and> (\<not> existsSync fs file \<longrightarrow> cleanup file fs = Inr fs)"
  using assms
  by (auto simp: askFileInput_def finish_removes cleanup_removes existsSync_def cleanup_def)

text \<open>The theorem for a menu on which Abort is selected with two down keys.\<close>

theorem abort_returns_false_witness:
  "askQuestion ''Q'' (menu ''f.md'') None
     (events \<lparr>events = [Data (sentinel @ '':keypress:down''),
                Data (sentinel @ '':keypress:down''), Data (sentinel @ '':submit'')],
              external = [], editor_ok = True\<rparr>) =
     Some (Inr (VString ''abort''))
   \<and> askFileInput ''Q'' ''f.md'' ''hello'' None Map.empty
       [\<lparr>events = [Data (sentinel @ '':keypress:down''),
                Data (sentinel @ '':keypress:down''), Data (sentinel @ '':submit'')],
         external = [], editor_ok = True\<rparr>] =
       Some (Inr (VBool False, Map.empty))"
proof -
  let ?s1 = "\<lparr>events = [Data (sentinel @ '':keypress:down''),
                Data (sentinel @ '':keypress:down''), Data (sentinel @ '':submit'')],
              external = [], editor_ok = True\<rparr>"
  have h: "askQuestion ''Q'' (menu ''f.md'') None (events ?s1) = Some (Inr (VString ''abort''))"
    by code_simp
  show ?thesis
    using h abort_returns_false [OF h, of "''hello''" Map.empty "[]"]
    by (simp add: writeFile_def)
qed

subsection \<open>The order of the ranked options\<close>

lemma find_pos_front:
  "\<forall>x \<in> set xs. cmp pivot x < 0 \<Longrightarrow> r \<le> length xs \<Longrightarrow> find_pos cmp pivot xs l r = l"
proof (induction cmp pivot xs l r rule: find_pos.induct)
  case (1 cmp pivot xs left right)
  show ?case
  proof (cases "left < right")
    case True
    let ?mid = "left + (right - left) div 2"
    have m: "?mid < right" using True by linarith
    then have "xs ! ?mid \<in> set xs" using "1.prems"(2) by simp
    then have neg: "cmp pivot (xs ! ?mid) < 0" using "1.prems"(1) by blast
    have "find_pos cmp pivot xs left ?mid = left"
      using "1.IH"(1) [OF True refl neg "1.prems"(1)] m "1.prems"(2) by simp
    then show ?thesis
      using True neg by (subst find_pos.simps) (simp add: Let_def)
  next
    case False
    then show ?thesis by (subst find_pos.simps) simp
  qed
qed

lemma find_pos_back:
  "\<forall>x \<in> set xs. \<not> cmp pivot x < 0 \<Longrightarrow> l \<le> r \<Longrightarrow> r \<le> length xs \<Longrightarrow>
   find_pos cmp pivot xs l r = r"
proof (induction cmp pivot xs l r rule: find_pos.induct)
  case (1 cmp pivot xs left right)
  show ?case
  proof (cases "left < right")
    case True
    let ?mid = "left + (right - left) div 2"
    have m: "?mid < right" using True by linarith
    then have "xs ! ?mid \<in> set xs" using "1.prems"(3) by simp
    then have nn: "\<not> cmp pivot (xs ! ?mid) < 0" using "1.prems"(1) by blast
    have "find_pos cmp pivot xs (?mid + 1) right = right"
      using "1.IH"(2) [OF True refl nn "1.prems"(1)] m "1.prems"(3) by simp
    then show ?thesis
      using True nn by (subst find_pos.simps) (simp add: Let_def)
  next
    case False
    then show ?thesis using "1.prems"(2) by (subst find_pos.simps) simp
  qed
qed


lemma comparator_starts: "starts f a \<Longrightarrow> comparator opts f a b = - 1"
  by (simp add: comparator_def starts_def)

lemma comparator_behind: "\<not> starts f a \<Longrightarrow> starts f b \<Longrightarrow> comparator opts f a b = 1"
  by (simp add: comparator_def starts_def)

lemma comparator_other:
  "\<not> starts f a \<Longrightarrow>
   comparator opts f a b < 0 \<longleftrightarrow> \<not> starts f b \<and> indexOf opts a < indexOf opts b"
  by (simp add: comparator_def starts_def)

lemma insertion_shape:
  "index_sorted opts f (pre @ rest) \<Longrightarrow>
   binaryInsertionSort (comparator opts f) pre rest =
     rev (filter (starts f) rest) @ pre @ filter (\<lambda>a. \<not> starts f a) rest"
proof (induction rest arbitrary: pre)
  case Nil
  then show ?case by simp
next
  case (Cons p rest)
  show ?case
  proof (cases "starts f p")
    case True
    have "find_pos (comparator opts f) p pre 0 (length pre) = 0"
      by (rule find_pos_front) (simp_all add: comparator_starts [OF True])
    moreover have "index_sorted opts f ((p # pre) @ rest)"
      using Cons.prems True by (simp add: index_sorted_def)
    ultimately show ?thesis
      using Cons.IH [of "p # pre"] True by simp
  next
    case False
    have "\<forall>x \<in> set pre. \<not> comparator opts f p x < 0"
      using Cons.prems False
      by (auto simp: comparator_other index_sorted_def sorted_wrt_append)
    then have "find_pos (comparator opts f) p pre 0 (length pre) = length pre"
      by (rule find_pos_back) simp_all
    moreover have "index_sorted opts f ((pre @ [p]) @ rest)"
      using Cons.prems by simp
    ultimately show ?thesis
      using Cons.IH [of "pre @ [p]"] False by simp
  qed
qed

lemma run_length_descending:
  "starts f prev \<Longrightarrow>
   run_length (comparator opts f) True prev rest = length (takeWhile (starts f) rest)"
proof (induction rest arbitrary: prev)
  case Nil
  then show ?case by simp
next
  case (Cons x rest)
  then show ?case
    by (cases "starts f x") (simp_all add: comparator_starts comparator_behind Let_def)
qed

lemma run_length_ascending:
  "\<not> starts f prev \<Longrightarrow> index_sorted opts f (prev # rest) \<Longrightarrow>
   run_length (comparator opts f) False prev rest =
     length (takeWhile (\<lambda>a. \<not> starts f a) rest)"
proof (induction rest arbitrary: prev)
  case Nil
  then show ?case by simp
next
  case (Cons x rest)
  show ?case
  proof (cases "starts f x")
    case True
    then show ?thesis by (simp add: comparator_starts Let_def)
  next
    case False
    have le: "indexOf opts prev \<le> indexOf opts x"
      using Cons.prems False by (simp add: index_sorted_def)
    have "index_sorted opts f (x # rest)"
      using Cons.prems False by (simp add: index_sorted_def)
    then show ?thesis
      using Cons.IH [OF False] False le Cons.prems(1)
      by (simp add: comparator_other Let_def)
  qed
qed

lemma sort_js_shape:
  assumes "index_sorted opts f xs"
  shows "sort_js (comparator opts f) xs =
           rev (filter (starts f) xs) @ filter (\<lambda>a. \<not> starts f a) xs"
proof (cases xs)
  case Nil
  then show ?thesis by (simp add: sort_js_def)
next
  case (Cons x0 tail)
  note outer = Cons
  show ?thesis
  proof (cases tail)
    case Nil
    then show ?thesis using outer by (simp add: sort_js_def)
  next
    case (Cons x1 rest)
    have xs: "xs = x0 # x1 # rest" using outer Cons by simp
    show ?thesis
    proof (cases "starts f x1")
      case True
      let ?tw = "takeWhile (starts f) rest"
      let ?dw = "dropWhile (starts f) rest"
      have desc: "comparator opts f x1 x0 < 0" by (simp add: comparator_starts [OF True])
      have n: "run_length (comparator opts f) True x1 rest = length ?tw"
        by (rule run_length_descending [OF True])
      have tk: "take (length ?tw) rest = ?tw" "drop (length ?tw) rest = ?dw"
        by (simp_all add: takeWhile_eq_take [symmetric] dropWhile_eq_drop [symmetric])
      have run: "countAndMakeRun (comparator opts f) xs =
          (2 + length ?tw, rev (x0 # x1 # ?tw) @ ?dw)"
        using desc n tk by (simp add: countAndMakeRun_def xs Let_def)
      have s: "sort_js (comparator opts f) xs =
          binaryInsertionSort (comparator opts f) (rev (x0 # x1 # ?tw)) ?dw"
        using run [unfolded xs] by (simp add: sort_js_def xs)
      have all: "\<forall>a \<in> set ?tw. starts f a" by (auto dest: set_takeWhileD)
      have fs: "filter (starts f) ?tw = ?tw" "filter (\<lambda>a. \<not> starts f a) ?tw = []"
        using all by (simp_all add: filter_id_conv filter_empty_conv)
      have "filter (starts f) (?tw @ ?dw) = ?tw @ filter (starts f) ?dw"
        "filter (\<lambda>a. \<not> starts f a) (?tw @ ?dw) = filter (\<lambda>a. \<not> starts f a) ?dw"
        by (simp_all only: filter_append fs append_Nil)
      then have fr: "filter (starts f) rest = ?tw @ filter (starts f) ?dw"
        "filter (\<lambda>a. \<not> starts f a) rest = filter (\<lambda>a. \<not> starts f a) ?dw"
        by (simp_all only: takeWhile_dropWhile_id)
      have nrev: "filter (\<lambda>a. \<not> starts f a) (rev ?tw) = []"
        using all by (simp add: filter_empty_conv)
      have eq: "filter (\<lambda>a. \<not> starts f a) (rev (x0 # x1 # ?tw) @ ?dw) =
          filter (\<lambda>a. \<not> starts f a) xs"
        using True nrev fr(2) by (simp add: xs)
      have w: "index_sorted opts f (rev (x0 # x1 # ?tw) @ ?dw)"
        unfolding index_sorted_def eq using assms by (simp only: index_sorted_def)
      show ?thesis
        unfolding s insertion_shape [OF w] using True fr fs by (simp add: xs)
    next
      case False
      let ?tw = "takeWhile (\<lambda>a. \<not> starts f a) rest"
      let ?dw = "dropWhile (\<lambda>a. \<not> starts f a) rest"
      have w1: "index_sorted opts f (x1 # rest)"
        using assms by (cases "starts f x0") (simp_all add: index_sorted_def xs)
      have asc: "\<not> comparator opts f x1 x0 < 0"
        using assms False by (auto simp: comparator_other index_sorted_def xs)
      have n: "run_length (comparator opts f) False x1 rest = length ?tw"
        by (rule run_length_ascending [OF False w1])
      have tk: "take (length ?tw) rest = ?tw" "drop (length ?tw) rest = ?dw"
        by (simp_all add: takeWhile_eq_take [symmetric] dropWhile_eq_drop [symmetric])
      have run: "countAndMakeRun (comparator opts f) xs = (2 + length ?tw, xs)"
        using asc n by (simp add: countAndMakeRun_def xs Let_def)
      have s: "sort_js (comparator opts f) xs =
          binaryInsertionSort (comparator opts f) (x0 # x1 # ?tw) ?dw"
        using tk run [unfolded xs] by (simp add: sort_js_def xs)
      have all: "\<forall>a \<in> set ?tw. \<not> starts f a" by (auto dest: set_takeWhileD)
      have fs: "filter (starts f) ?tw = []" "filter (\<lambda>a. \<not> starts f a) ?tw = ?tw"
        using all by (simp_all add: filter_id_conv filter_empty_conv)
      have "filter (starts f) (?tw @ ?dw) = filter (starts f) ?dw"
        "filter (\<lambda>a. \<not> starts f a) (?tw @ ?dw) = ?tw @ filter (\<lambda>a. \<not> starts f a) ?dw"
        by (simp_all only: filter_append fs append_Nil)
      then have fr: "filter (starts f) rest = filter (starts f) ?dw"
        "filter (\<lambda>a. \<not> starts f a) rest = ?tw @ filter (\<lambda>a. \<not> starts f a) ?dw"
        by (simp_all only: takeWhile_dropWhile_id)
      have w: "index_sorted opts f ((x0 # x1 # ?tw) @ ?dw)"
        using assms by (simp add: xs)
      show ?thesis
        unfolding s insertion_shape [OF w] using False fr fs by (simp add: xs)
    qed
  qed
qed


lemma index_from_nth:
  "distinct (map ident xs) \<Longrightarrow> i < length xs \<Longrightarrow>
   index_from k xs (ident (xs ! i)) = int (k + i)"
proof (induction xs arbitrary: k i)
  case Nil
  then show ?case by simp
next
  case (Cons x xs)
  show ?case
  proof (cases i)
    case 0
    then show ?thesis by simp
  next
    case (Suc j)
    then have j: "j < length xs" using Cons.prems(2) by simp
    then have "ident (xs ! j) \<in> ident ` set xs" by simp
    then have "ident x \<noteq> ident (xs ! j)" using Cons.prems(1) by auto
    then show ?thesis
      using Cons.IH [of j "Suc k"] Cons.prems(1) j Suc by simp
  qed
qed

lemma indexOf_nth:
  "distinct (map ident opts) \<Longrightarrow> i < length opts \<Longrightarrow> indexOf opts (opts ! i) = int i"
  using index_from_nth [of opts i 0] by (simp add: indexOf_def)

lemma index_sorted_filter:
  "distinct (map ident opts) \<Longrightarrow> index_sorted opts f (filter P opts)"
proof -
  assume d: "distinct (map ident opts)"
  have "sorted_wrt (\<lambda>x y. indexOf opts x \<le> indexOf opts y) opts"
    by (simp add: sorted_wrt_iff_nth_less indexOf_nth [OF d])
  then show ?thesis
    unfolding index_sorted_def by (intro sorted_wrt_filter)
qed

text \<open>
  What the ranking does with distinct option objects: the options that contain
  the filter text are kept; those that start with it come first, in the
  reverse of the order supplied, and the others follow in the order supplied.
\<close>

lemma rank_options_shape:
  assumes "distinct (map ident opts)" and "f \<noteq> []"
  shows "rank_options opts f =
           rev (filter (starts f)
                  (filter (\<lambda>option. includes_str (toLowerCase (name option)) f) opts))
           @ filter (\<lambda>a. \<not> starts f a)
               (filter (\<lambda>option. includes_str (toLowerCase (name option)) f) opts)"
  using assms(2) sort_js_shape [OF index_sorted_filter [OF assms(1)]]
  by (simp add: rank_options_def)

text \<open>
  Claim C1 (the original order is kept among options of equal status) does
  not hold for two options that both start with the filter text. With the
  options of \<^verbatim>\<open>openPullRequest\<close> and the filter text m, Minor and Major both
  start with m; the comparator answers \<open>- 1\<close> for the pair in either order, and
  the ranked list has Major before Minor, the reverse of the order supplied.
\<close>

theorem rank_reverses_prefix_matches:
  "map name (rank_options (normalise changelevels) ''m'') =
     [''Major (Breaking changes, etc.)'', ''Minor (New features, etc.)'']
   \<and> comparator (normalise changelevels) ''m''
        (normalise changelevels ! 1) (normalise changelevels ! 2) = - 1
   \<and> comparator (normalise changelevels) ''m''
        (normalise changelevels ! 2) (normalise changelevels ! 1) = - 1"
  by code_simp

end
